theory Spec2Isabelle
  imports Main
begin

section \<open>Connection manager (src/api/websocket.py)\<close>

text \<open>
  A WebSocket object is identified by a number (Python compares the objects by identity).
  A Python \<open>set\<close> is a list without duplicates: \<open>add\<close> appends an element that is not yet
  there and \<open>discard\<close> removes it. Python leaves the iteration order of a set open; no
  statement below depends on the order chosen here.
\<close>

type_synonym websocket = nat

definition set_add :: "'a \<Rightarrow> 'a list \<Rightarrow> 'a list" where
  "set_add x xs = (if x \<in> set xs then xs else xs @ [x])"

definition set_discard :: "'a \<Rightarrow> 'a list \<Rightarrow> 'a list" where
  "set_discard x xs = removeAll x xs"

text \<open>
  Exceptions are values. \<open>KeyError\<close> is what \<open>d[k]\<close> and \<open>del d[k]\<close> raise on a missing key,
  \<open>AcceptError\<close> is an exception out of \<open>websocket.accept()\<close>, \<open>SendError\<close> one out of
  \<open>websocket.send_text\<close> (any subclass of \<open>Exception\<close>). \<open>RuntimeError\<close> is what the
  iterator of a set raises when the set has changed its size since the iteration began,
  \<open>AttributeError\<close> what a method call on a value without that method raises.
  \<open>RedisConnectionError\<close> is what
  the Redis client raises when the server cannot be reached, \<open>RedisResponseError\<close> what it
  raises when the server rejects a command.
\<close>

datatype py_error =
  KeyError | AcceptError | SendError | RuntimeError | AttributeError
  | RedisConnectionError | RedisResponseError

definition subscript :: "('k \<rightharpoonup> 'v) \<Rightarrow> 'k \<Rightarrow> py_error + 'v" where
  "subscript d k = (case d k of None \<Rightarrow> Inl KeyError | Some v \<Rightarrow> Inr v)"

definition del_item :: "('k \<rightharpoonup> 'v) \<Rightarrow> 'k \<Rightarrow> py_error + ('k \<rightharpoonup> 'v)" where
  "del_item d k = (case d k of None \<Rightarrow> Inl KeyError | Some v \<Rightarrow> Inr (d(k := None)))"

record ConnectionManager =
  active_connections :: "string \<rightharpoonup> websocket list"
  user_channels :: "websocket \<rightharpoonup> string list"

definition channel_names :: "string list" where
  "channel_names = [''tower-ai-feed'', ''floor-pulse-2'', ''floor-pulse-4'',
     ''floor-pulse-9'', ''floor-pulse-15'', ''floor-pulse-16'']"

text \<open>\<open>ConnectionManager.__init__\<close>: six channels with no member, no connection known.\<close>

definition manager_init :: ConnectionManager where
  "manager_init = \<lparr> active_connections =
       [''tower-ai-feed'' \<mapsto> [], ''floor-pulse-2'' \<mapsto> [], ''floor-pulse-4'' \<mapsto> [],
        ''floor-pulse-9'' \<mapsto> [], ''floor-pulse-15'' \<mapsto> [], ''floor-pulse-16'' \<mapsto> []],
     user_channels = Map.empty \<rparr>"

text \<open>
  \<open>ConnectionManager.connect\<close>. The first argument says whether \<open>await websocket.accept()\<close>
  returns; when it raises, nothing else of the body runs.
\<close>

definition connect ::
  "bool \<Rightarrow> ConnectionManager \<Rightarrow> websocket \<Rightarrow> string \<Rightarrow> py_error + ConnectionManager" where
  "connect accept_ok self websocket channel =
     (if \<not> accept_ok then Inl AcceptError
      else if channel \<in> dom (active_connections self) then
        (case subscript (active_connections self) channel of
           Inl e \<Rightarrow> Inl e
         | Inr members \<Rightarrow>
             let ac = (active_connections self)(channel \<mapsto> set_add websocket members);
                 uc = (if websocket \<notin> dom (user_channels self)
                       then (user_channels self)(websocket \<mapsto> [])
                       else user_channels self)
             in (case subscript uc websocket of
                   Inl e \<Rightarrow> Inl e
                 | Inr chans \<Rightarrow>
                     Inr (self\<lparr>active_connections := ac,
                               user_channels := uc(websocket \<mapsto> set_add channel chans)\<rparr>)))
      else Inr self)"

text \<open>
  \<open>ConnectionManager.disconnect\<close>. The loop over the channels of the connection discards
  the connection from each channel set that exists.
\<close>

fun discard_from_channels ::
  "websocket \<Rightarrow> string list \<Rightarrow> (string \<rightharpoonup> websocket list)
     \<Rightarrow> py_error + (string \<rightharpoonup> websocket list)" where
  "discard_from_channels websocket [] ac = Inr ac"
| "discard_from_channels websocket (channel # rest) ac =
     (if channel \<in> dom ac then
        (case subscript ac channel of
           Inl e \<Rightarrow> Inl e
         | Inr members \<Rightarrow>
             discard_from_channels websocket rest (ac(channel \<mapsto> set_discard websocket members)))
      else discard_from_channels websocket rest ac)"

definition disconnect :: "ConnectionManager \<Rightarrow> websocket \<Rightarrow> py_error + ConnectionManager" where
  "disconnect self websocket =
     (if websocket \<in> dom (user_channels self) then
        (case subscript (user_channels self) websocket of
           Inl e \<Rightarrow> Inl e
         | Inr chans \<Rightarrow>
            (case discard_from_channels websocket chans (active_connections self) of
               Inl e \<Rightarrow> Inl e
             | Inr ac \<Rightarrow>
                (case del_item (user_channels self) websocket of
                   Inl e \<Rightarrow> Inl e
                 | Inr uc \<Rightarrow> Inr (self\<lparr>active_connections := ac, user_channels := uc\<rparr>))))
      else Inr self)"

text \<open>
  The transport. \<open>send_text raises c m\<close> is \<open>await c.send_text(m)\<close>, where \<open>raises c\<close> says
  whether the send on connection \<open>c\<close> raises. Every call is recorded with its outcome.
\<close>

datatype send_event = Delivered websocket string | Failed websocket string

definition send_text :: "(websocket \<Rightarrow> bool) \<Rightarrow> websocket \<Rightarrow> string \<Rightarrow> py_error + unit" where
  "send_text raises connection message = (if raises connection then Inl SendError else Inr ())"

text \<open>
  \<open>ConnectionManager.broadcast\<close>, when no other task runs while the broadcast waits in a
  send: the first loop sends to each member and collects the connections whose send
  raised; the second loop disconnects them. The broadcast with other tasks running at its
  awaits is \<open>broadcast_interleaved\<close> below.
\<close>

fun broadcast_send ::
  "(websocket \<Rightarrow> bool) \<Rightarrow> string \<Rightarrow> websocket list \<Rightarrow> websocket list \<Rightarrow> send_event list
     \<Rightarrow> websocket list \<times> send_event list" where
  "broadcast_send raises message [] disconnected log = (disconnected, log)"
| "broadcast_send raises message (connection # rest) disconnected log =
     (case send_text raises connection message of
        Inr u \<Rightarrow> broadcast_send raises message rest disconnected
                   (log @ [Delivered connection message])
      | Inl e \<Rightarrow> broadcast_send raises message rest (set_add connection disconnected)
                   (log @ [Failed connection message]))"

fun broadcast_cleanup ::
  "websocket list \<Rightarrow> ConnectionManager \<Rightarrow> py_error + ConnectionManager" where
  "broadcast_cleanup [] self = Inr self"
| "broadcast_cleanup (conn # rest) self =
     (case disconnect self conn of
        Inl e \<Rightarrow> Inl e
      | Inr self' \<Rightarrow> broadcast_cleanup rest self')"

definition broadcast ::
  "(websocket \<Rightarrow> bool) \<Rightarrow> ConnectionManager \<Rightarrow> string \<Rightarrow> string
     \<Rightarrow> py_error + (ConnectionManager \<times> send_event list)" where
  "broadcast raises self channel message =
     (if channel \<in> dom (active_connections self) then
        (case subscript (active_connections self) channel of
           Inl e \<Rightarrow> Inl e
         | Inr members \<Rightarrow>
            (case broadcast_send raises message members [] [] of
               (disconnected, log) \<Rightarrow>
                 (case broadcast_cleanup disconnected self of
                    Inl e \<Rightarrow> Inl e
                  | Inr self' \<Rightarrow> Inr (self', log))))
      else Inr (self, []))"

text \<open>
  Histories of operations on one manager. An operation that raises leaves the manager as
  the exception found it; in \<open>connect\<close> that is the manager before the call.
\<close>

datatype operation =
    Connect bool websocket string
  | Disconnect websocket
  | Broadcast "websocket \<Rightarrow> bool" string string

fun apply_op :: "operation \<Rightarrow> ConnectionManager \<Rightarrow> ConnectionManager" where
  "apply_op (Connect accept_ok websocket channel) self =
     (case connect accept_ok self websocket channel of Inl e \<Rightarrow> self | Inr self' \<Rightarrow> self')"
| "apply_op (Disconnect websocket) self =
     (case disconnect self websocket of Inl e \<Rightarrow> self | Inr self' \<Rightarrow> self')"
| "apply_op (Broadcast raises channel message) self =
     (case broadcast raises self channel message of Inl e \<Rightarrow> self | Inr (self', log) \<Rightarrow> self')"

definition run :: "operation list \<Rightarrow> ConnectionManager \<Rightarrow> ConnectionManager" where
  "run ops self = fold apply_op ops self"

text \<open>The members of a channel and the channels of a connection, empty for a missing key.\<close>

definition members_of :: "ConnectionManager \<Rightarrow> string \<Rightarrow> websocket list" where
  "members_of self channel =
     (case active_connections self channel of None \<Rightarrow> [] | Some members \<Rightarrow> members)"

definition channels_of :: "ConnectionManager \<Rightarrow> websocket \<Rightarrow> string list" where
  "channels_of self websocket =
     (case user_channels self websocket of None \<Rightarrow> [] | Some chans \<Rightarrow> chans)"

definition consistent :: "ConnectionManager \<Rightarrow> bool" where
  "consistent self =
     (\<forall>channel websocket.
        (websocket \<in> set (members_of self channel)) = (channel \<in> set (channels_of self websocket)))"

definition no_duplicates :: "ConnectionManager \<Rightarrow> bool" where
  "no_duplicates self = (\<forall>channel. distinct (members_of self channel))"

definition known_keys :: "ConnectionManager \<Rightarrow> bool" where
  "known_keys self = (dom (active_connections self) = set channel_names)"

definition wellformed :: "ConnectionManager \<Rightarrow> bool" where
  "wellformed self = (consistent self \<and> no_duplicates self \<and> known_keys self)"

text \<open>Operations that can take connection \<open>C\<close> out of a channel, and those that can put it in.\<close>

fun disconnects :: "websocket \<Rightarrow> operation \<Rightarrow> bool" where
  "disconnects C (Connect accept_ok websocket channel) = False"
| "disconnects C (Disconnect websocket) = (websocket = C)"
| "disconnects C (Broadcast raises channel message) = raises C"

fun registers :: "websocket \<Rightarrow> operation \<Rightarrow> bool" where
  "registers C (Connect accept_ok websocket channel) = (websocket = C)"
| "registers C (Disconnect websocket) = False"
| "registers C (Broadcast raises channel message) = False"

text \<open>
  \<open>ConnectionManager.broadcast\<close> as it runs among other tasks. The \<open>for\<close> loop iterates the
  set of the channel itself, not a copy, and every \<open>await connection.send_text(message)\<close>
  is a point where the handlers of other clients run: \<open>schedule\<close> gives, for the first
  send, the second send and so on, the operations that run during that send (none past
  the end of the list). The iterator remembers the size \<open>used\<close> of the set when the loop
  began and its position \<open>pos\<close>; each time the loop asks for the next member it raises
  \<open>RuntimeError\<close> if the set has another size now, and this is outside the \<open>try\<close> of the
  loop body, so it leaves \<open>broadcast\<close>. When the set has changed and has its old size,
  Python leaves open what the iterator yields; the model reads on at its position. The
  result is the exception or the connections to disconnect, with the manager and the log
  of sends at that point.
\<close>

function broadcast_iter ::
  "(websocket \<Rightarrow> bool) \<Rightarrow> string \<Rightarrow> string \<Rightarrow> operation list list \<Rightarrow> nat \<Rightarrow> nat
     \<Rightarrow> ConnectionManager \<Rightarrow> websocket list \<Rightarrow> send_event list
     \<Rightarrow> (py_error + websocket list) \<times> ConnectionManager \<times> send_event list" where
  "broadcast_iter raises channel message schedule used pos self disconnected log =
     (if length (members_of self channel) \<noteq> used then (Inl RuntimeError, self, log)
      else if pos < length (members_of self channel) then
        (case send_text raises (members_of self channel ! pos) message of
           Inr u \<Rightarrow>
             broadcast_iter raises channel message (tl schedule) used (Suc pos)
               (run (case schedule of [] \<Rightarrow> [] | ops # later \<Rightarrow> ops) self)
               disconnected
               (log @ [Delivered (members_of self channel ! pos) message])
         | Inl e \<Rightarrow>
             broadcast_iter raises channel message (tl schedule) used (Suc pos)
               (run (case schedule of [] \<Rightarrow> [] | ops # later \<Rightarrow> ops) self)
               (set_add (members_of self channel ! pos) disconnected)
               (log @ [Failed (members_of self channel ! pos) message]))
      else (Inr disconnected, self, log))"
  by pat_completeness auto
termination
  by (relation "measure (\<lambda>(raises, channel, message, schedule, used, pos, self, disconnected, log).
         used - pos)") auto

declare broadcast_iter.simps [simp del]

definition broadcast_interleaved ::
  "(websocket \<Rightarrow> bool) \<Rightarrow> operation list list \<Rightarrow> ConnectionManager \<Rightarrow> string \<Rightarrow> string
     \<Rightarrow> (py_error + unit) \<times> ConnectionManager \<times> send_event list" where
  "broadcast_interleaved raises schedule self channel message =
     (if channel \<in> dom (active_connections self) then
        (case broadcast_iter raises channel message schedule
                (length (members_of self channel)) 0 self [] [] of
           (Inl e, self', log) \<Rightarrow> (Inl e, self', log)
         | (Inr disconnected, self', log) \<Rightarrow>
             (case broadcast_cleanup disconnected self' of
                Inl e \<Rightarrow> (Inl e, self', log)
              | Inr self'' \<Rightarrow> (Inr (), self'', log)))
      else (Inr (), self, []))"

text \<open>A manager with two connections, used in the examples below.\<close>

definition two_on_floor_9 :: ConnectionManager where
  "two_on_floor_9 = run [Connect True 1 ''floor-pulse-9'', Connect True 2 ''floor-pulse-9'',
                         Connect True 1 ''tower-ai-feed''] manager_init"

section \<open>The tower-feed handler (src/api/websocket.py, websocket_tower_feed)\<close>

text \<open>
  An inbound frame after \<open>json.loads\<close>, a JSON object: the values of \<open>message.get("type")\<close>
  and \<open>message.get("channel")\<close>. Such a value is \<open>Missing\<close> when the key is absent or
  \<open>null\<close>, a string, or a JSON value of another kind, of which the code sees whether it is
  true in a condition. The frames the server sends are kept as objects (the code sends
  their \<open>json.dumps\<close>).
\<close>

datatype field = Missing | Str string | NonStr bool

record message =
  msg_type :: field
  msg_channel :: field

datatype frame = Pong | Subscribed string

fun startswith :: "string \<Rightarrow> string \<Rightarrow> bool" where
  "startswith s [] = True"
| "startswith [] (p # ps) = False"
| "startswith (c # cs) (p # ps) = (c = p \<and> startswith cs ps)"

text \<open>
  \<open>send_personal_message\<close> swallows the exception of a failed send; the result is the list
  of frames that reached the client.
\<close>

definition send_personal_message :: "bool \<Rightarrow> frame \<Rightarrow> frame list" where
  "send_personal_message send_ok f = (if send_ok then [f] else [])"

text \<open>
  The socket of the handler has been accepted when the receive loop runs: the handler
  calls \<open>manager.connect(websocket, "tower-ai-feed")\<close> before the loop, and an exception of
  that call ends the handler. Starlette's \<open>WebSocket.accept\<close> on a socket that has been
  accepted raises \<open>RuntimeError\<close>, so an \<open>accept\<close> in the loop does not return.
\<close>

definition accept_again :: bool where
  "accept_again = False"

text \<open>
  One round of the receive loop of \<open>websocket_tower_feed\<close>, for connection \<open>websocket\<close>.
  An \<open>Inl\<close> result is an exception that leaves the loop body. In
  \<open>channel and channel.startswith("floor-pulse-")\<close> a value that is not true ends the
  condition, and a true value that is not a string has no \<open>startswith\<close>.
\<close>

definition tower_feed_message ::
  "bool \<Rightarrow> ConnectionManager \<Rightarrow> websocket \<Rightarrow> message
     \<Rightarrow> py_error + (ConnectionManager \<times> frame list)" where
  "tower_feed_message send_ok manager websocket message =
     (if msg_type message = Str ''ping'' then
        Inr (manager, send_personal_message send_ok Pong)
      else if msg_type message = Str ''subscribe'' then
        (case msg_channel message of
           Missing \<Rightarrow> Inr (manager, [])
         | NonStr truthy \<Rightarrow> if truthy then Inl AttributeError else Inr (manager, [])
         | Str channel \<Rightarrow>
             if channel \<noteq> [] \<and> startswith channel ''floor-pulse-'' then
               (case connect accept_again manager websocket channel of
                  Inl e \<Rightarrow> Inl e
                | Inr manager' \<Rightarrow>
                    Inr (manager', send_personal_message send_ok (Subscribed channel)))
             else Inr (manager, []))
      else Inr (manager, []))"

text \<open>
  The \<open>try\<close> around the loop: an exception out of the loop body (any \<open>Exception\<close>) is
  caught, the connection is disconnected and the handler ends. The result is the manager,
  the frames that reached the client and whether the loop goes on.
\<close>

definition tower_feed_round ::
  "bool \<Rightarrow> ConnectionManager \<Rightarrow> websocket \<Rightarrow> message
     \<Rightarrow> py_error + (ConnectionManager \<times> frame list \<times> bool)" where
  "tower_feed_round send_ok manager websocket message =
     (case tower_feed_message send_ok manager websocket message of
        Inr (manager', out) \<Rightarrow> Inr (manager', out, True)
      | Inl e \<Rightarrow>
          (case disconnect manager websocket of
             Inl e' \<Rightarrow> Inl e'
           | Inr manager' \<Rightarrow> Inr (manager', [], False)))"

section \<open>The Redis listener (src/api/websocket.py, redis_listener)\<close>

text \<open>
  What \<open>pubsub.listen()\<close> yields: an item with its type, channel and data, or an exception
  of the transport. The list is the sequence of things the bus would yield, also after an
  error, to a subscriber that is still there.
\<close>

datatype bus_event = Item string string string | TransportError

fun listen_loop ::
  "(websocket \<Rightarrow> bool) \<Rightarrow> ConnectionManager \<Rightarrow> bus_event list \<Rightarrow> send_event list
     \<Rightarrow> (py_error + unit) \<times> ConnectionManager \<times> send_event list" where
  "listen_loop raises manager [] log = (Inr (), manager, log)"
| "listen_loop raises manager (TransportError # rest) log =
     (Inl RedisConnectionError, manager, log)"
| "listen_loop raises manager (Item ty channel data # rest) log =
     (if ty = ''message'' then
        (case broadcast raises manager channel data of
           Inl e \<Rightarrow> (Inl e, manager, log)
         | Inr (manager', out) \<Rightarrow> listen_loop raises manager' rest (log @ out))
      else listen_loop raises manager rest log)"

text \<open>
  \<open>redis_listener\<close>: one call of \<open>pubsub.subscribe\<close>, then the loop. \<open>subscribe_ok\<close> says
  whether the subscription returns.
\<close>

definition redis_listener ::
  "bool \<Rightarrow> (websocket \<Rightarrow> bool) \<Rightarrow> ConnectionManager \<Rightarrow> bus_event list
     \<Rightarrow> (py_error + unit) \<times> ConnectionManager \<times> send_event list" where
  "redis_listener subscribe_ok raises manager events =
     (if \<not> subscribe_ok then (Inl RedisConnectionError, manager, [])
      else listen_loop raises manager events [])"

section \<open>Cache and rate limiter (src/api/intelligence.py)\<close>

subsection \<open>The Redis server\<close>

text \<open>
  Redis is an external service; what follows is the documented behaviour of the four
  commands the code calls (\<open>GET\<close>, \<open>SETEX\<close>, \<open>INCR\<close>, \<open>EXPIRE\<close>). A key holds a value and,
  when it is volatile, the time at which it expires; a key whose time has come is gone.
  \<open>Counter n\<close> is a string that is the decimal representation of \<open>n\<close>, \<open>Text s\<close> any other
  string (the cached JSON documents). Time is in seconds, and every command is given the
  time \<open>now\<close> at which the server runs it. \<open>outages\<close> lists, for the commands still to
  come, whether the command raises a connection error; past the end of the list no
  command does.
\<close>

datatype redis_value = Text string | Counter int

record redis =
  entries :: "string \<rightharpoonup> redis_value \<times> int option"
  outages :: "bool list"

definition next_call :: "redis \<Rightarrow> bool \<times> redis" where
  "next_call r = (case outages r of [] \<Rightarrow> (False, r) | down # later \<Rightarrow> (down, r\<lparr>outages := later\<rparr>))"

definition live :: "int \<Rightarrow> redis \<Rightarrow> string \<Rightarrow> (redis_value \<times> int option) option" where
  "live now r key =
     (case entries r key of
        None \<Rightarrow> None
      | Some (v, None) \<Rightarrow> Some (v, None)
      | Some (v, Some t) \<Rightarrow> if now < t then Some (v, Some t) else None)"

text \<open>Python's \<open>str\<close> of an integer, which is also how an f-string formats it.\<close>

fun digits :: "nat \<Rightarrow> string" where
  "digits n = (if n < 10 then [''0123456789'' ! n]
               else digits (n div 10) @ [''0123456789'' ! (n mod 10)])"

declare digits.simps [simp del]

definition str_int :: "int \<Rightarrow> string" where
  "str_int i = (if i < 0 then CHR ''-'' # digits (nat (- i)) else digits (nat i))"

definition redis_get :: "int \<Rightarrow> redis \<Rightarrow> string \<Rightarrow> (py_error + string option) \<times> redis" where
  "redis_get now r key =
     (case next_call r of
        (True, r') \<Rightarrow> (Inl RedisConnectionError, r')
      | (False, r') \<Rightarrow>
          (case live now r' key of
             None \<Rightarrow> (Inr None, r')
           | Some (Text s, t) \<Rightarrow> (Inr (Some s), r')
           | Some (Counter n, t) \<Rightarrow> (Inr (Some (str_int n)), r')))"

definition redis_setex ::
  "int \<Rightarrow> redis \<Rightarrow> string \<Rightarrow> int \<Rightarrow> string \<Rightarrow> (py_error + unit) \<times> redis" where
  "redis_setex now r key ttl v =
     (case next_call r of
        (True, r') \<Rightarrow> (Inl RedisConnectionError, r')
      | (False, r') \<Rightarrow>
          if ttl \<le> 0 then (Inl RedisResponseError, r')
          else (Inr (), r'\<lparr>entries := (entries r')(key \<mapsto> (Text v, Some (now + ttl)))\<rparr>))"

definition redis_incr :: "int \<Rightarrow> redis \<Rightarrow> string \<Rightarrow> (py_error + int) \<times> redis" where
  "redis_incr now r key =
     (case next_call r of
        (True, r') \<Rightarrow> (Inl RedisConnectionError, r')
      | (False, r') \<Rightarrow>
          (case live now r' key of
             None \<Rightarrow> (Inr 1, r'\<lparr>entries := (entries r')(key \<mapsto> (Counter 1, None))\<rparr>)
           | Some (Text s, t) \<Rightarrow> (Inl RedisResponseError, r')
           | Some (Counter n, t) \<Rightarrow>
               if n = 2 ^ 63 - 1 then (Inl RedisResponseError, r')
               else (Inr (n + 1), r'\<lparr>entries := (entries r')(key \<mapsto> (Counter (n + 1), t))\<rparr>)))"

definition redis_expire ::
  "int \<Rightarrow> redis \<Rightarrow> string \<Rightarrow> int \<Rightarrow> (py_error + bool) \<times> redis" where
  "redis_expire now r key seconds =
     (case next_call r of
        (True, r') \<Rightarrow> (Inl RedisConnectionError, r')
      | (False, r') \<Rightarrow>
          (case live now r' key of
             None \<Rightarrow> (Inr False, r')
           | Some (v, t) \<Rightarrow>
               (Inr True, r'\<lparr>entries := (entries r')(key \<mapsto> (v, Some (now + seconds)))\<rparr>)))"

subsection \<open>The helpers of the module\<close>

definition RATE_LIMITS :: "(string \<times> int \<times> int) list" where
  "RATE_LIMITS = [(''/api/floors/*/pulse'', 180, 60),
                  (''/api/analytics/live'', 240, 60),
                  (''/api/bot/query'', 15, 60)]"

text \<open>\<open>cache_get\<close> and \<open>cache_set\<close>: one command each, with nothing around it.\<close>

definition cache_get :: "int \<Rightarrow> redis \<Rightarrow> string \<Rightarrow> (py_error + string option) \<times> redis" where
  "cache_get now r key = redis_get now r key"

definition cache_set ::
  "int \<Rightarrow> redis \<Rightarrow> string \<Rightarrow> string \<Rightarrow> int \<Rightarrow> (py_error + unit) \<times> redis" where
  "cache_set now r key v ttl = redis_setex now r key ttl v"

text \<open>\<open>pattern.replace("*", "")\<close> and the substring test \<open>sub in s\<close>.\<close>

definition replace_star :: "string \<Rightarrow> string" where
  "replace_star pattern = filter (\<lambda>c. c \<noteq> CHR ''*'') pattern"

fun str_contains :: "string \<Rightarrow> string \<Rightarrow> bool" where
  "str_contains sub [] = (sub = [])"
| "str_contains sub (c # cs) = (startswith (c # cs) sub \<or> str_contains sub cs)"

definition rate_key :: "string \<Rightarrow> string \<Rightarrow> string" where
  "rate_key path identifier = ''rate:'' @ path @ '':'' @ identifier"

text \<open>
  \<open>check_rate_limit\<close>: the loop over \<open>RATE_LIMITS.items()\<close>, in the order of the dictionary,
  leaves at the first pattern found in the path.
\<close>

fun rate_limit_loop ::
  "(string \<times> int \<times> int) list \<Rightarrow> int \<Rightarrow> redis \<Rightarrow> string \<Rightarrow> string
     \<Rightarrow> (py_error + bool) \<times> redis" where
  "rate_limit_loop [] now r path key = (Inr True, r)"
| "rate_limit_loop ((pattern, limit, window) # rest) now r path key =
     (if str_contains (replace_star pattern) path then
        (case redis_incr now r key of
           (Inl e, r1) \<Rightarrow> (Inl e, r1)
         | (Inr count, r1) \<Rightarrow>
             if count = 1 then
               (case redis_expire now r1 key window of
                  (Inl e, r2) \<Rightarrow> (Inl e, r2)
                | (Inr armed, r2) \<Rightarrow> (Inr (count \<le> limit), r2))
             else (Inr (count \<le> limit), r1))
      else rate_limit_loop rest now r path key)"

definition check_rate_limit ::
  "int \<Rightarrow> redis \<Rightarrow> string \<Rightarrow> string \<Rightarrow> (py_error + bool) \<times> redis" where
  "check_rate_limit now r path identifier =
     rate_limit_loop RATE_LIMITS now r path (rate_key path identifier)"

text \<open>
  The first statement of \<open>get_floor_pulse\<close>: the limiter is asked about the path of the
  floor and the subject of the token (\<open>"anonymous"\<close> when the token has none).
\<close>

definition pulse_path :: "int \<Rightarrow> string" where
  "pulse_path floor_id = ''/api/floors/'' @ str_int floor_id @ ''/pulse''"

definition get_floor_pulse_check ::
  "int \<Rightarrow> redis \<Rightarrow> int \<Rightarrow> string option \<Rightarrow> (py_error + bool) \<times> redis" where
  "get_floor_pulse_check now r floor_id sub =
     check_rate_limit now r (pulse_path floor_id)
       (case sub of None \<Rightarrow> ''anonymous'' | Some identity \<Rightarrow> identity)"

text \<open>A number of calls one after the other, all at times given by the list.\<close>

fun check_rate_limit_calls ::
  "int list \<Rightarrow> redis \<Rightarrow> string \<Rightarrow> string \<Rightarrow> (py_error + bool) list \<times> redis" where
  "check_rate_limit_calls [] r path identifier = ([], r)"
| "check_rate_limit_calls (now # later) r path identifier =
     (case check_rate_limit now r path identifier of
        (res, r1) \<Rightarrow>
          (case check_rate_limit_calls later r1 path identifier of
             (ress, r2) \<Rightarrow> (res # ress, r2)))"

text \<open>
  The entry of \<open>RATE_LIMITS\<close> at which the loop of \<open>check_rate_limit\<close> stops for a path:
  the limit and the window of the first pattern found in the path, if there is one.
\<close>

fun first_match :: "(string \<times> int \<times> int) list \<Rightarrow> string \<Rightarrow> (int \<times> int) option" where
  "first_match [] path = None"
| "first_match ((pattern, limit, window) # rest) path =
     (if str_contains (replace_star pattern) path then Some (limit, window)
      else first_match rest path)"

text \<open>A server with no key, and the same server with an outage at the next command.\<close>

definition redis_empty :: redis where
  "redis_empty = \<lparr>entries = Map.empty, outages = []\<rparr>"

definition redis_down :: redis where
  "redis_down = \<lparr>entries = Map.empty, outages = [True]\<rparr>"

text \<open>The server after one counted request of caller \<open>u\<close> on \<open>/api/bot/query\<close> at time 0.\<close>

definition one_bot_query :: redis where
  "one_bot_query = redis_empty\<lparr>entries := [rate_key ''/api/bot/query'' ''u'' \<mapsto> (Counter 1, Some 60)]\<rparr>"

section \<open>Properties of the connection manager\<close>

subsection \<open>What the operations compute\<close>

lemma set_set_add: "set (set_add x xs) = insert x (set xs)"
  by (auto simp: set_add_def)

lemma distinct_set_add: "distinct xs \<Longrightarrow> distinct (set_add x xs)"
  by (simp add: set_add_def)

lemma set_fold_set_add: "set (fold set_add xs ys) = set xs \<union> set ys"
  by (induction xs arbitrary: ys) (auto simp: set_set_add)

lemma discard_from_channels_eq:
  "discard_from_channels w chans ac =
     Inr (\<lambda>X. if X \<in> set chans then map_option (set_discard w) (ac X) else ac X)"
proof (induction chans arbitrary: ac)
  case Nil
  show ?case by simp
next
  case (Cons c cs)
  show ?case
  proof (cases "ac c")
    case None
    then show ?thesis
      by (auto simp: Cons.IH dom_def)
  next
    case (Some ms)
    then show ?thesis
      by (auto simp: Cons.IH dom_def subscript_def set_discard_def)
  qed
qed

lemma disconnect_eq:
  "disconnect self w =
     Inr (case user_channels self w of
            None \<Rightarrow> self
          | Some chans \<Rightarrow>
              self\<lparr>active_connections :=
                     (\<lambda>X. if X \<in> set chans then map_option (set_discard w) (active_connections self X)
                          else active_connections self X),
                   user_channels := (user_channels self)(w := None)\<rparr>)"
  by (auto simp: disconnect_def subscript_def del_item_def discard_from_channels_eq dom_def
           split: option.splits)

lemma disconnect_unregistered:
  "user_channels self w = None \<Longrightarrow> disconnect self w = Inr self"
  by (simp add: disconnect_eq)

lemma members_of_disconnect:
  assumes "consistent self" and "disconnect self w = Inr self'"
  shows "members_of self' X = set_discard w (members_of self X)"
proof (cases "user_channels self w")
  case None
  then have "w \<notin> set (members_of self X)"
    using assms(1) by (simp add: consistent_def channels_of_def)
  moreover have "self' = self" using assms(2) None by (simp add: disconnect_eq)
  ultimately show ?thesis by (simp add: set_discard_def)
next
  case (Some chans)
  show ?thesis
  proof (cases "X \<in> set chans")
    case True
    then show ?thesis using assms(2) Some
      by (auto simp: disconnect_eq members_of_def set_discard_def split: option.splits)
  next
    case False
    then have "w \<notin> set (members_of self X)"
      using assms(1) Some by (simp add: consistent_def channels_of_def)
    then show ?thesis using assms(2) Some False
      by (auto simp: disconnect_eq members_of_def set_discard_def split: option.splits)
  qed
qed

lemma channels_of_disconnect:
  assumes "disconnect self w = Inr self'"
  shows "channels_of self' c = (if c = w then [] else channels_of self c)"
  using assms by (auto simp: disconnect_eq channels_of_def split: option.splits)

lemma user_channels_disconnect:
  assumes "disconnect self w = Inr self'"
  shows "user_channels self' = (user_channels self)(w := None)"
  using assms by (auto simp: disconnect_eq split: option.splits)

lemma dom_active_disconnect:
  assumes "disconnect self w = Inr self'"
  shows "dom (active_connections self') = dom (active_connections self)"
  using assms by (auto simp: disconnect_eq dom_def split: option.splits if_splits)

lemma connect_eq:
  "connect ok self w X =
    (if \<not> ok then Inl AcceptError
     else case active_connections self X of
        None \<Rightarrow> Inr self
      | Some ms \<Rightarrow> Inr (self\<lparr>active_connections := (active_connections self)(X \<mapsto> set_add w ms),
                            user_channels := (user_channels self)(w \<mapsto> set_add X (channels_of self w))\<rparr>))"
  by (auto simp: connect_def subscript_def channels_of_def dom_def Let_def split: option.splits)

lemma members_of_connect:
  assumes "connect ok self w X = Inr self'"
  shows "members_of self' Y =
     (if Y = X \<and> X \<in> dom (active_connections self) then set_add w (members_of self Y)
      else members_of self Y)"
  using assms by (auto simp: connect_eq members_of_def dom_def split: if_splits option.splits)

lemma channels_of_connect:
  assumes "connect ok self w X = Inr self'"
  shows "channels_of self' c =
     (if c = w \<and> X \<in> dom (active_connections self) then set_add X (channels_of self c)
      else channels_of self c)"
  using assms by (auto simp: connect_eq channels_of_def dom_def split: if_splits option.splits)

lemma dom_active_connect:
  assumes "connect ok self w X = Inr self'"
  shows "dom (active_connections self') = dom (active_connections self)"
  using assms by (auto simp: connect_eq dom_def split: option.splits if_splits)

lemma broadcast_send_eq:
  "broadcast_send raises m ms ds log =
     (fold set_add (filter raises ms) ds,
      log @ map (\<lambda>c. if raises c then Failed c m else Delivered c m) ms)"
  by (induction ms arbitrary: ds log) (auto simp: send_text_def)

subsection \<open>The consistency of the two maps\<close>

lemma consistent_init: "consistent manager_init"
  by (auto simp: consistent_def manager_init_def members_of_def channels_of_def)

lemma consistent_connect:
  assumes "consistent self" and "connect ok self w X = Inr self'"
  shows "consistent self'"
  unfolding consistent_def
  using assms(1)
  by (auto simp: members_of_connect[OF assms(2)] channels_of_connect[OF assms(2)]
         set_set_add consistent_def)

lemma consistent_disconnect:
  assumes "consistent self" and "disconnect self w = Inr self'"
  shows "consistent self'"
  unfolding consistent_def
  using assms(1)
  by (auto simp: members_of_disconnect[OF assms] channels_of_disconnect[OF assms(2)]
         set_discard_def consistent_def)

lemma consistent_cleanup:
  "consistent self \<Longrightarrow> \<exists>self'. broadcast_cleanup ds self = Inr self' \<and> consistent self'"
proof (induction ds arbitrary: self)
  case Nil
  then show ?case by simp
next
  case (Cons d ds)
  obtain s1 where s1: "disconnect self d = Inr s1"
    by (simp add: disconnect_eq)
  have "consistent s1" using consistent_disconnect[OF Cons.prems s1] .
  then show ?case using Cons.IH[of s1] s1 by simp
qed

lemma consistent_apply_op:
  assumes "consistent self"
  shows "consistent (apply_op op self)"
proof (cases op)
  case (Connect ok w X)
  then show ?thesis using assms consistent_connect[of self ok w X]
    by (auto split: sum.splits)
next
  case (Disconnect w)
  then show ?thesis using assms consistent_disconnect[of self w]
    by (auto split: sum.splits)
next
  case (Broadcast raises ch m)
  show ?thesis
  proof (cases "broadcast raises self ch m")
    case (Inl e)
    then show ?thesis using Broadcast assms by simp
  next
    case (Inr res)
    obtain s' log where res: "res = (s', log)" by (cases res)
    have "consistent s'"
    proof (cases "active_connections self ch")
      case None
      then show ?thesis using Inr res assms by (simp add: broadcast_def dom_def)
    next
      case (Some ms)
      obtain ds lg where sd: "broadcast_send raises m ms [] [] = (ds, lg)"
        by (cases "broadcast_send raises m ms [] []")
      from consistent_cleanup[OF assms, of ds] obtain s2
        where "broadcast_cleanup ds self = Inr s2" "consistent s2" by blast
      then show ?thesis using Inr res Some sd
        by (simp add: broadcast_def dom_def subscript_def)
    qed
    then show ?thesis using Broadcast Inr res by simp
  qed
qed

lemma consistent_run: "consistent self \<Longrightarrow> consistent (run ops self)"
  unfolding run_def
  by (induction ops arbitrary: self) (auto simp: consistent_apply_op)

text \<open>
  C2: a connection is in the set of a channel exactly when the channel is in the set of
  the connection. This holds for the manager as it is created, after any one connect,
  disconnect or broadcast on a manager where it holds, and after any sequence of them.
\<close>

theorem membership_maps_consistent:
  "consistent manager_init
   \<and> (consistent self \<longrightarrow> consistent (apply_op op self))
   \<and> (consistent self \<longrightarrow> consistent (run ops self))"
  by (simp add: consistent_init consistent_apply_op consistent_run)

theorem membership_maps_consistent_witness:
  "consistent manager_init
   \<and> consistent (apply_op (Connect True 1 ''floor-pulse-9'') manager_init)
   \<and> consistent (run [Connect True 1 ''floor-pulse-9'', Connect True 2 ''floor-pulse-9'',
                      Connect True 1 ''tower-ai-feed'',
                      Broadcast (\<lambda>c. c = 1) ''floor-pulse-9'' ''m'', Disconnect 2] manager_init)"
  using membership_maps_consistent [of manager_init "Connect True 1 ''floor-pulse-9''"
      "[Connect True 1 ''floor-pulse-9'', Connect True 2 ''floor-pulse-9'',
        Connect True 1 ''tower-ai-feed'',
        Broadcast (\<lambda>c. c = 1) ''floor-pulse-9'' ''m'', Disconnect 2]"]
  by blast

subsection \<open>Well-formed managers\<close>

lemma wellformed_init: "wellformed manager_init"
proof -
  have "no_duplicates manager_init"
    by (auto simp: no_duplicates_def manager_init_def members_of_def)
  moreover have "known_keys manager_init"
    by (auto simp: known_keys_def manager_init_def channel_names_def dom_def)
  ultimately show ?thesis by (simp add: wellformed_def consistent_init)
qed

lemma wellformed_connect:
  assumes "wellformed self" and "connect ok self w X = Inr self'"
  shows "wellformed self'"
proof -
  have "consistent self'"
    using assms consistent_connect by (auto simp: wellformed_def)
  moreover have "no_duplicates self'"
    using assms(1) by (simp add: wellformed_def no_duplicates_def
         members_of_connect[OF assms(2)] distinct_set_add)
  moreover have "known_keys self'"
    using assms(1) by (simp add: wellformed_def known_keys_def dom_active_connect[OF assms(2)])
  ultimately show ?thesis by (simp add: wellformed_def)
qed

lemma wellformed_disconnect:
  assumes "wellformed self" and "disconnect self w = Inr self'"
  shows "wellformed self'"
proof -
  have c: "consistent self" using assms(1) by (simp add: wellformed_def)
  have "consistent self'"
    using c assms(2) by (rule consistent_disconnect)
  moreover have "no_duplicates self'"
    using assms(1) by (simp add: wellformed_def no_duplicates_def
         members_of_disconnect[OF c assms(2)] set_discard_def distinct_removeAll)
  moreover have "known_keys self'"
    using assms(1) by (simp add: wellformed_def known_keys_def dom_active_disconnect[OF assms(2)])
  ultimately show ?thesis by (simp add: wellformed_def)
qed

lemma broadcast_cleanup_ok:
  assumes "wellformed self"
  shows "\<exists>self'. broadcast_cleanup ds self = Inr self' \<and> wellformed self'
           \<and> (\<forall>X. members_of self' X = filter (\<lambda>c. c \<notin> set ds) (members_of self X))
           \<and> (\<forall>c. user_channels self' c = (if c \<in> set ds then None else user_channels self c))"
  using assms
proof (induction ds arbitrary: self)
  case Nil
  then show ?case by simp
next
  case (Cons d ds)
  obtain s1 where s1: "disconnect self d = Inr s1"
    by (simp add: disconnect_eq)
  have w1: "wellformed s1" using wellformed_disconnect[OF Cons.prems s1] .
  have c: "consistent self" using Cons.prems by (simp add: wellformed_def)
  from Cons.IH[OF w1] obtain s2 where s2: "broadcast_cleanup ds s1 = Inr s2" "wellformed s2"
    "\<forall>X. members_of s2 X = filter (\<lambda>c. c \<notin> set ds) (members_of s1 X)"
    "\<forall>c. user_channels s2 c = (if c \<in> set ds then None else user_channels s1 c)"
    by blast
  have "broadcast_cleanup (d # ds) self = Inr s2" using s1 s2(1) by simp
  moreover have "\<forall>X. members_of s2 X = filter (\<lambda>c. c \<notin> set (d # ds)) (members_of self X)"
    using s2(3) by (auto simp: members_of_disconnect[OF c s1] set_discard_def removeAll_filter_not_eq
        intro: filter_cong)
  moreover have "\<forall>c. user_channels s2 c = (if c \<in> set (d # ds) then None else user_channels self c)"
    using s2(4) by (simp add: user_channels_disconnect[OF s1])
  ultimately show ?case using s2(2) by blast
qed

lemma broadcast_ok:
  assumes "wellformed self"
  shows "\<exists>self'. broadcast raises self ch m =
            Inr (self', map (\<lambda>c. if raises c then Failed c m else Delivered c m) (members_of self ch))
         \<and> wellformed self'
         \<and> (\<forall>Y. members_of self' Y =
                filter (\<lambda>c. \<not> (raises c \<and> c \<in> set (members_of self ch))) (members_of self Y))
         \<and> (\<forall>c. user_channels self' c =
                (if raises c \<and> c \<in> set (members_of self ch) then None else user_channels self c))"
proof (cases "active_connections self ch")
  case None
  then show ?thesis using assms
    by (simp add: broadcast_def dom_def members_of_def)
next
  case (Some ms)
  let ?ds = "fold set_add (filter raises ms) []"
  have ds: "set ?ds = {c \<in> set ms. raises c}"
    by (auto simp: set_fold_set_add)
  from broadcast_cleanup_ok[OF assms, of ?ds] obtain s' where s':
    "broadcast_cleanup ?ds self = Inr s'" "wellformed s'"
    "\<forall>X. members_of s' X = filter (\<lambda>c. c \<notin> set ?ds) (members_of self X)"
    "\<forall>c. user_channels s' c = (if c \<in> set ?ds then None else user_channels self c)"
    by blast
  have m: "members_of self ch = ms" using Some by (simp add: members_of_def)
  have "broadcast raises self ch m =
            Inr (s', map (\<lambda>c. if raises c then Failed c m else Delivered c m) (members_of self ch))"
    using Some s'(1) by (simp add: broadcast_def dom_def subscript_def broadcast_send_eq m)
  moreover have "\<forall>Y. members_of s' Y =
                filter (\<lambda>c. \<not> (raises c \<and> c \<in> set (members_of self ch))) (members_of self Y)"
    using s'(3) unfolding ds m by (auto intro: filter_cong)
  moreover have "\<forall>c. user_channels s' c =
                (if raises c \<and> c \<in> set (members_of self ch) then None else user_channels self c)"
    using s'(4) unfolding ds m by auto
  ultimately show ?thesis using s'(2) by blast
qed

lemma wellformed_apply_op:
  assumes "wellformed self"
  shows "wellformed (apply_op op self)"
proof (cases op)
  case (Connect ok w X)
  then show ?thesis using assms wellformed_connect[of self ok w X]
    by (auto split: sum.splits)
next
  case (Disconnect w)
  then show ?thesis using assms wellformed_disconnect[of self w]
    by (auto split: sum.splits)
next
  case (Broadcast raises ch m)
  then show ?thesis using broadcast_ok[OF assms, of raises ch m]
    by auto
qed

lemma wellformed_run:
  "wellformed self \<Longrightarrow> wellformed (run ops self)"
  unfolding run_def
  by (induction ops arbitrary: self) (auto simp: wellformed_apply_op)

text \<open>Every manager that the operations can reach from the initial one is well-formed.\<close>

lemma wellformed_reachable: "wellformed (run ops manager_init)"
  by (rule wellformed_run[OF wellformed_init])

lemma member_kept_apply_op:
  assumes "wellformed self" and "\<not> disconnects C op" and "C \<in> set (members_of self X)"
  shows "C \<in> set (members_of (apply_op op self) X)"
proof (cases op)
  case (Connect ok w Y)
  then show ?thesis using assms(3) members_of_connect[of ok self w Y]
    by (auto simp: set_set_add split: sum.splits)
next
  case (Disconnect w)
  have c: "consistent self" using assms(1) by (simp add: wellformed_def)
  from Disconnect show ?thesis using assms(2,3) members_of_disconnect[OF c, of w]
    by (auto simp: set_discard_def split: sum.splits)
next
  case (Broadcast raises ch m)
  then show ?thesis using broadcast_ok[OF assms(1), of raises ch m] assms(2,3)
    by auto
qed

lemma member_kept_run:
  assumes "wellformed self" and "\<forall>op \<in> set ops. \<not> disconnects C op"
    and "C \<in> set (members_of self X)"
  shows "C \<in> set (members_of (run ops self) X)"
  using assms unfolding run_def
  by (induction ops arbitrary: self) (auto simp: wellformed_apply_op member_kept_apply_op)

lemma absent_kept_apply_op:
  assumes "wellformed self" and "\<not> registers C op" and "\<forall>X. C \<notin> set (members_of self X)"
  shows "\<forall>X. C \<notin> set (members_of (apply_op op self) X)"
proof (cases op)
  case (Connect ok w Y)
  then show ?thesis using assms(2,3) members_of_connect[of ok self w Y]
    by (auto simp: set_set_add split: sum.splits if_splits)
next
  case (Disconnect w)
  have c: "consistent self" using assms(1) by (simp add: wellformed_def)
  from Disconnect show ?thesis using assms(3) members_of_disconnect[OF c, of w]
    by (auto simp: set_discard_def split: sum.splits)
next
  case (Broadcast raises ch m)
  then show ?thesis using broadcast_ok[OF assms(1), of raises ch m] assms(3)
    by auto
qed

lemma absent_kept_run:
  assumes "wellformed self" and "\<forall>op \<in> set ops. \<not> registers C op"
    and "\<forall>X. C \<notin> set (members_of self X)"
  shows "\<forall>X. C \<notin> set (members_of (run ops self) X)"
  using assms unfolding run_def
proof (induction ops arbitrary: self)
  case Nil
  then show ?case by simp
next
  case (Cons op ops)
  have "\<forall>X. C \<notin> set (members_of (apply_op op self) X)"
    using absent_kept_apply_op[OF Cons.prems(1) _ Cons.prems(3), of op] Cons.prems(2) by simp
  then show ?case using Cons.IH[of "apply_op op self"] Cons.prems(1,2)
    by (simp add: wellformed_apply_op)
qed

lemma count_list_delivered:
  "count_list (map (\<lambda>c. if raises c then Failed c m else Delivered c m) ms) (Delivered C m)
     = (if raises C then 0 else count_list ms C)"
  by (induction ms) auto

lemma count_list_failed:
  "count_list (map (\<lambda>c. if raises c then Failed c m else Delivered c m) ms) (Failed C m)
     = (if raises C then count_list ms C else 0)"
  by (induction ms) auto

lemma count_list_distinct: "distinct ms \<Longrightarrow> C \<in> set ms \<Longrightarrow> count_list ms C = 1"
  by (induction ms) auto

subsection \<open>Broadcast among other tasks\<close>

lemma broadcast_iter_undisturbed:
  assumes "length (members_of self ch) = used"
  shows "broadcast_iter raises ch m [] used pos self ds log =
           (case broadcast_send raises m (drop pos (members_of self ch)) ds log of
              (ds', log') \<Rightarrow> (Inr ds', self, log'))"
  using assms
proof (induction "used - pos" arbitrary: pos ds log)
  case 0
  then show ?case
    by (subst broadcast_iter.simps) simp
next
  case (Suc k)
  then have lt: "pos < length (members_of self ch)" by simp
  have d: "drop pos (members_of self ch)
             = members_of self ch ! pos # drop (Suc pos) (members_of self ch)"
    using lt by (simp add: Cons_nth_drop_Suc)
  have k: "k = used - Suc pos" using Suc.hyps(2) by simp
  show ?case
    using lt Suc.prems Suc.hyps(1)[OF k Suc.prems]
    by (subst broadcast_iter.simps) (simp add: d run_def send_text_def)
qed

text \<open>With no operation of another task during its sends, the broadcast is the one above.\<close>

lemma broadcast_interleaved_undisturbed:
  assumes "broadcast raises self ch m = Inr (self', log)"
  shows "broadcast_interleaved raises [] self ch m = (Inr (), self', log)"
proof (cases "active_connections self ch")
  case None
  then show ?thesis using assms
    by (simp add: broadcast_def broadcast_interleaved_def dom_def)
next
  case (Some ms)
  then have m: "members_of self ch = ms" by (simp add: members_of_def)
  obtain ds lg where sd: "broadcast_send raises m ms [] [] = (ds, lg)"
    by (cases "broadcast_send raises m ms [] []")
  have it: "broadcast_iter raises ch m [] (length ms) 0 self [] [] = (Inr ds, self, lg)"
    using broadcast_iter_undisturbed[of self ch "length ms" raises m 0 "[]" "[]"] m sd
    by simp
  show ?thesis using assms Some sd it
    by (auto simp: broadcast_def broadcast_interleaved_def dom_def subscript_def m
        split: sum.splits)
qed

lemma consistent_broadcast_iter:
  "consistent self \<Longrightarrow>
     consistent (fst (snd (broadcast_iter raises ch m schedule used pos self ds log)))"
proof (induction raises ch m schedule used pos self ds log rule: broadcast_iter.induct)
  case (1 raises channel message schedule used pos self disconnected log)
  have r: "consistent (run (case schedule of [] \<Rightarrow> [] | ops # later \<Rightarrow> ops) self)"
    using "1.prems" by (rule consistent_run)
  show ?case
  proof (cases "length (members_of self channel) \<noteq> used")
    case True
    then show ?thesis using "1.prems" by (subst broadcast_iter.simps) simp
  next
    case eq: False
    show ?thesis
    proof (cases "pos < length (members_of self channel)")
      case False
      then show ?thesis using eq "1.prems" by (subst broadcast_iter.simps) simp
    next
      case True
      show ?thesis
      proof (cases "send_text raises (members_of self channel ! pos) message")
        case (Inl e)
        then show ?thesis using eq True "1.IH"(1)[OF eq True Inl r]
          by (subst broadcast_iter.simps) simp
      next
        case (Inr u)
        then show ?thesis using eq True "1.IH"(2)[OF eq True Inr r]
          by (subst broadcast_iter.simps) simp
      qed
    qed
  qed
qed

text \<open>
  The two maps stay consistent through a broadcast among other tasks too, whether it
  returns or raises.
\<close>

lemma consistent_broadcast_interleaved:
  assumes "consistent self"
  shows "consistent (fst (snd (broadcast_interleaved raises schedule self ch m)))"
proof (cases "ch \<in> dom (active_connections self)")
  case False
  then show ?thesis using assms by (simp add: broadcast_interleaved_def)
next
  case True
  obtain res s' lg where it:
    "broadcast_iter raises ch m schedule (length (members_of self ch)) 0 self [] [] = (res, s', lg)"
    by (cases "broadcast_iter raises ch m schedule (length (members_of self ch)) 0 self [] []")
  have c: "consistent s'"
    using consistent_broadcast_iter[OF assms, of raises ch m schedule
        "length (members_of self ch)" 0 "[]" "[]"] it by simp
  show ?thesis
  proof (cases res)
    case (Inl e)
    then show ?thesis using True it c by (simp add: broadcast_interleaved_def)
  next
    case (Inr ds)
    from consistent_cleanup[OF c, of ds] obtain s2
      where "broadcast_cleanup ds s' = Inr s2" "consistent s2" by blast
    then show ?thesis using True it Inr by (simp add: broadcast_interleaved_def)
  qed
qed

subsection \<open>Delivery\<close>

text \<open>
  A broadcast during whose sends no other task runs. Let \<open>connect\<close> of connection \<open>C\<close> to a
  known channel \<open>X\<close> return, and let any operations follow that neither disconnect \<open>C\<close> nor
  run a broadcast in which the send to \<open>C\<close> raises. Then such a broadcast of \<open>m\<close> on \<open>X\<close> in
  which the send to \<open>C\<close> does not raise returns, and it has delivered \<open>m\<close> to \<open>C\<close> exactly
  once.
\<close>

lemma undisturbed_broadcast_delivers_once:
  assumes "wellformed self" and "X \<in> set channel_names"
    and "connect accept_ok self C X = Inr s1"
    and "\<forall>op \<in> set ops. \<not> disconnects C op"
    and "\<not> raises C"
  shows "\<exists>self' log. broadcast raises (run ops s1) X m = Inr (self', log)
           \<and> broadcast_interleaved raises [] (run ops s1) X m = (Inr (), self', log)
           \<and> count_list log (Delivered C m) = 1"
proof -
  have w1: "wellformed s1" using wellformed_connect[OF assms(1,3)] .
  have "X \<in> dom (active_connections self)"
    using assms(1,2) by (simp add: wellformed_def known_keys_def)
  then have "C \<in> set (members_of s1 X)"
    by (simp add: members_of_connect[OF assms(3)] set_set_add)
  then have mem: "C \<in> set (members_of (run ops s1) X)"
    using member_kept_run[OF w1 assms(4)] by simp
  have w2: "wellformed (run ops s1)" using wellformed_run[OF w1] .
  then have "distinct (members_of (run ops s1) X)"
    by (simp add: wellformed_def no_duplicates_def)
  then have "count_list (members_of (run ops s1) X) C = 1"
    using mem by (rule count_list_distinct)
  then show ?thesis
    using broadcast_ok[OF w2, of raises X m] assms(5)
    by (auto simp: count_list_delivered broadcast_interleaved_undisturbed)
qed

text \<open>
  Such a broadcast on a well-formed manager, on a channel \<open>X\<close> with a member \<open>C\<close> to which
  the send raises: it returns; afterwards \<open>C\<close> is in no channel set and has no channel set
  of its own; every member of \<open>X\<close> had exactly one send; and the memberships of every
  connection that did not fail in this broadcast are what they were.
\<close>

lemma undisturbed_broadcast_drops_failed_connection:
  assumes "wellformed self" and "C \<in> set (members_of self X)" and "raises C"
  shows "\<exists>self' log. broadcast raises self X m = Inr (self', log)
           \<and> broadcast_interleaved raises [] self X m = (Inr (), self', log)
           \<and> user_channels self' C = None
           \<and> (\<forall>Y. C \<notin> set (members_of self' Y))
           \<and> (\<forall>c \<in> set (members_of self X).
                 count_list log (Delivered c m) + count_list log (Failed c m) = 1
                 \<and> (\<not> raises c \<longrightarrow> count_list log (Delivered c m) = 1))
           \<and> (\<forall>c. \<not> (raises c \<and> c \<in> set (members_of self X)) \<longrightarrow>
                 user_channels self' c = user_channels self c
                 \<and> (\<forall>Y. (c \<in> set (members_of self' Y)) = (c \<in> set (members_of self Y))))"
proof -
  from broadcast_ok[OF assms(1), of raises X m] obtain s' where s':
    "broadcast raises self X m =
       Inr (s', map (\<lambda>c. if raises c then Failed c m else Delivered c m) (members_of self X))"
    "wellformed s'"
    "\<forall>Y. members_of s' Y =
                filter (\<lambda>c. \<not> (raises c \<and> c \<in> set (members_of self X))) (members_of self Y)"
    "\<forall>c. user_channels s' c =
                (if raises c \<and> c \<in> set (members_of self X) then None else user_channels self c)"
    by blast
  have d: "distinct (members_of self X)"
    using assms(1) by (simp add: wellformed_def no_duplicates_def)
  have "user_channels s' C = None" using s'(4) assms(2,3) by simp
  moreover have "\<forall>Y. C \<notin> set (members_of s' Y)" using s'(3) assms(2,3) by simp
  moreover have "\<forall>c \<in> set (members_of self X).
      count_list (map (\<lambda>c. if raises c then Failed c m else Delivered c m) (members_of self X))
         (Delivered c m)
      + count_list (map (\<lambda>c. if raises c then Failed c m else Delivered c m) (members_of self X))
         (Failed c m) = 1
      \<and> (\<not> raises c \<longrightarrow>
          count_list (map (\<lambda>c. if raises c then Failed c m else Delivered c m) (members_of self X))
            (Delivered c m) = 1)"
    using d by (simp add: count_list_delivered count_list_failed count_list_distinct)
  moreover have "\<forall>c. \<not> (raises c \<and> c \<in> set (members_of self X)) \<longrightarrow>
                 user_channels s' c = user_channels self c
                 \<and> (\<forall>Y. (c \<in> set (members_of s' Y)) = (c \<in> set (members_of self Y)))"
    using s'(3,4) by auto
  ultimately show ?thesis
    using s'(1) broadcast_interleaved_undisturbed[OF s'(1)] by blast
qed

lemma two_on_floor_9_members: "members_of two_on_floor_9 ''floor-pulse-9'' = [1, 2]"
  by (simp add: two_on_floor_9_def run_def connect_eq manager_init_def members_of_def
      set_add_def channels_of_def)

text \<open>
  C1 fails when another client connects during the broadcast. Connection 1 is on
  \<open>floor-pulse-9\<close>, connection 2 connects to it and the connect returns; nobody is
  disconnected and no send raises. A broadcast of \<open>m\<close> then sends to connection 1, the
  member its iterator yields first, and while it waits in that send connection 3 connects
  to the channel. The set has grown, the iterator raises \<open>RuntimeError\<close>, the exception
  leaves \<open>broadcast\<close>, and connection 2 has not got \<open>m\<close>.
\<close>

theorem broadcast_skips_member_when_set_grows:
  "connect True (run [Connect True 1 ''floor-pulse-9''] manager_init) 2 ''floor-pulse-9''
     = Inr (run [Connect True 1 ''floor-pulse-9'', Connect True 2 ''floor-pulse-9''] manager_init)
   \<and> members_of (run [Connect True 1 ''floor-pulse-9'', Connect True 2 ''floor-pulse-9'']
                   manager_init) ''floor-pulse-9'' = [1, 2]
   \<and> fst (broadcast_interleaved (\<lambda>c. False) [[Connect True 3 ''floor-pulse-9'']]
            (run [Connect True 1 ''floor-pulse-9'', Connect True 2 ''floor-pulse-9''] manager_init)
            ''floor-pulse-9'' ''m'') = Inl RuntimeError
   \<and> snd (snd (broadcast_interleaved (\<lambda>c. False) [[Connect True 3 ''floor-pulse-9'']]
            (run [Connect True 1 ''floor-pulse-9'', Connect True 2 ''floor-pulse-9''] manager_init)
            ''floor-pulse-9'' ''m'')) = [Delivered 1 ''m'']
   \<and> count_list (snd (snd (broadcast_interleaved (\<lambda>c. False) [[Connect True 3 ''floor-pulse-9'']]
            (run [Connect True 1 ''floor-pulse-9'', Connect True 2 ''floor-pulse-9''] manager_init)
            ''floor-pulse-9'' ''m''))) (Delivered 2 ''m'') = 0"
proof -
  have a: "connect True (run [Connect True 1 ''floor-pulse-9''] manager_init) 2 ''floor-pulse-9''
     = Inr (run [Connect True 1 ''floor-pulse-9'', Connect True 2 ''floor-pulse-9''] manager_init)"
    by (simp add: run_def connect_eq split: option.splits)
  have b: "members_of (run [Connect True 1 ''floor-pulse-9'', Connect True 2 ''floor-pulse-9'']
                   manager_init) ''floor-pulse-9'' = [1, 2]"
    by code_simp
  have c: "fst (broadcast_interleaved (\<lambda>c. False) [[Connect True 3 ''floor-pulse-9'']]
            (run [Connect True 1 ''floor-pulse-9'', Connect True 2 ''floor-pulse-9''] manager_init)
            ''floor-pulse-9'' ''m'') = Inl RuntimeError"
    by code_simp
  have d: "snd (snd (broadcast_interleaved (\<lambda>c. False) [[Connect True 3 ''floor-pulse-9'']]
            (run [Connect True 1 ''floor-pulse-9'', Connect True 2 ''floor-pulse-9''] manager_init)
            ''floor-pulse-9'' ''m'')) = [Delivered 1 ''m'']"
    by code_simp
  show ?thesis using a b c d by simp
qed

text \<open>
  C4 fails when another client connects during the broadcast. Connections 1 and 2 are on
  \<open>floor-pulse-9\<close>, and the send to connection 1 raises. While the broadcast waits in that
  send, connection 3 connects to the channel. The iterator raises \<open>RuntimeError\<close>, which
  leaves \<open>broadcast\<close>; connection 2 has had no send; and the cleanup has not run, so
  connection 1 is still a member of the channel and still has its channel set. The same
  happens when a member disconnects during the send.
\<close>

theorem broadcast_raises_when_set_changes:
  "members_of two_on_floor_9 ''floor-pulse-9'' = [1, 2]
   \<and> fst (broadcast_interleaved (\<lambda>c. c = 1) [[Connect True 3 ''floor-pulse-9'']] two_on_floor_9
            ''floor-pulse-9'' ''m'') = Inl RuntimeError
   \<and> snd (snd (broadcast_interleaved (\<lambda>c. c = 1) [[Connect True 3 ''floor-pulse-9'']]
            two_on_floor_9 ''floor-pulse-9'' ''m'')) = [Failed 1 ''m'']
   \<and> members_of (fst (snd (broadcast_interleaved (\<lambda>c. c = 1) [[Connect True 3 ''floor-pulse-9'']]
            two_on_floor_9 ''floor-pulse-9'' ''m''))) ''floor-pulse-9'' = [1, 2, 3]
   \<and> user_channels (fst (snd (broadcast_interleaved (\<lambda>c. c = 1)
            [[Connect True 3 ''floor-pulse-9'']] two_on_floor_9 ''floor-pulse-9'' ''m''))) 1
        = Some [''floor-pulse-9'', ''tower-ai-feed'']
   \<and> fst (broadcast_interleaved (\<lambda>c. c = 1) [[Disconnect 2]] two_on_floor_9
            ''floor-pulse-9'' ''m'') = Inl RuntimeError
   \<and> members_of (fst (snd (broadcast_interleaved (\<lambda>c. c = 1) [[Disconnect 2]] two_on_floor_9
            ''floor-pulse-9'' ''m''))) ''floor-pulse-9'' = [1]"
proof -
  have a: "members_of two_on_floor_9 ''floor-pulse-9'' = [1, 2]"
    by (rule two_on_floor_9_members)
  have b: "fst (broadcast_interleaved (\<lambda>c. c = 1) [[Connect True 3 ''floor-pulse-9'']] two_on_floor_9
            ''floor-pulse-9'' ''m'') = Inl RuntimeError"
    by code_simp
  have c: "snd (snd (broadcast_interleaved (\<lambda>c. c = 1) [[Connect True 3 ''floor-pulse-9'']]
            two_on_floor_9 ''floor-pulse-9'' ''m'')) = [Failed 1 ''m'']"
    by code_simp
  have d: "members_of (fst (snd (broadcast_interleaved (\<lambda>c. c = 1) [[Connect True 3 ''floor-pulse-9'']]
            two_on_floor_9 ''floor-pulse-9'' ''m''))) ''floor-pulse-9'' = [1, 2, 3]"
    by code_simp
  have e: "user_channels (fst (snd (broadcast_interleaved (\<lambda>c. c = 1)
            [[Connect True 3 ''floor-pulse-9'']] two_on_floor_9 ''floor-pulse-9'' ''m''))) 1
        = Some [''floor-pulse-9'', ''tower-ai-feed'']"
    by code_simp
  have f: "fst (broadcast_interleaved (\<lambda>c. c = 1) [[Disconnect 2]] two_on_floor_9
            ''floor-pulse-9'' ''m'') = Inl RuntimeError"
    by code_simp
  have g: "members_of (fst (snd (broadcast_interleaved (\<lambda>c. c = 1) [[Disconnect 2]] two_on_floor_9
            ''floor-pulse-9'' ''m''))) ''floor-pulse-9'' = [1]"
    by code_simp
  show ?thesis using a b c d e f g by simp
qed

text \<open>
  C6: on a well-formed manager \<open>disconnect\<close> of \<open>C\<close> returns without an exception. After
  it, and after any further operations that do not connect \<open>C\<close> again, a broadcast on any
  channel returns and has made no send to \<open>C\<close>. A second \<open>disconnect\<close> of \<open>C\<close> returns the
  manager as it is, and so does the \<open>disconnect\<close> of a connection that is not registered.
\<close>

theorem disconnect_stops_delivery_and_is_idempotent:
  assumes "wellformed self"
  shows "\<exists>s1. disconnect self C = Inr s1
           \<and> disconnect s1 C = Inr s1
           \<and> (user_channels self C = None \<longrightarrow> s1 = self)
           \<and> (\<forall>ops. (\<forall>op \<in> set ops. \<not> registers C op) \<longrightarrow>
                 (\<forall>raises X m. \<exists>self' log.
                     broadcast raises (run ops s1) X m = Inr (self', log)
                     \<and> (\<forall>m'. Delivered C m' \<notin> set log \<and> Failed C m' \<notin> set log)))"
proof -
  obtain s1 where s1: "disconnect self C = Inr s1"
    by (simp add: disconnect_eq)
  have c: "consistent self" using assms by (simp add: wellformed_def)
  have w1: "wellformed s1" using wellformed_disconnect[OF assms s1] .
  have gone: "\<forall>X. C \<notin> set (members_of s1 X)"
    by (simp add: members_of_disconnect[OF c s1] set_discard_def)
  have "user_channels s1 C = None"
    by (simp add: user_channels_disconnect[OF s1])
  then have again: "disconnect s1 C = Inr s1"
    by (rule disconnect_unregistered)
  have never: "user_channels self C = None \<longrightarrow> s1 = self"
    using s1 by (auto simp: disconnect_unregistered)
  have later: "\<exists>self' log. broadcast raises (run ops s1) X m = Inr (self', log)
                     \<and> (\<forall>m'. Delivered C m' \<notin> set log \<and> Failed C m' \<notin> set log)"
    if "\<forall>op \<in> set ops. \<not> registers C op" for ops raises X m
  proof -
    have "\<forall>X. C \<notin> set (members_of (run ops s1) X)"
      using absent_kept_run[OF w1 that gone] .
    then show ?thesis
      using broadcast_ok[OF wellformed_run[OF w1], of raises ops X m]
      by auto
  qed
  have all: "\<forall>ops. (\<forall>op \<in> set ops. \<not> registers C op) \<longrightarrow>
                 (\<forall>raises X m. \<exists>self' log.
                     broadcast raises (run ops s1) X m = Inr (self', log)
                     \<and> (\<forall>m'. Delivered C m' \<notin> set log \<and> Failed C m' \<notin> set log))"
    by (intro allI impI later)
  show ?thesis
    using s1 again never all by (intro exI[of _ s1] conjI)
qed

theorem disconnect_stops_delivery_and_is_idempotent_witness:
  "wellformed two_on_floor_9
   \<and> user_channels two_on_floor_9 7 = None
   \<and> disconnect two_on_floor_9 7 = Inr two_on_floor_9
   \<and> \<not> registers 1 (Connect True 3 ''tower-ai-feed'') \<and> \<not> registers 1 (Disconnect 2)
   \<and> (\<exists>s1. disconnect two_on_floor_9 1 = Inr s1 \<and> disconnect s1 1 = Inr s1
        \<and> (\<exists>self' log.
              broadcast (\<lambda>c. False) (run [Connect True 3 ''tower-ai-feed'', Disconnect 2] s1)
                ''tower-ai-feed'' ''m'' = Inr (self', log)
              \<and> Delivered 1 ''m'' \<notin> set log))"
proof -
  have h1: "wellformed two_on_floor_9"
    unfolding two_on_floor_9_def by (rule wellformed_run[OF wellformed_init])
  have h2: "\<forall>op \<in> set [Connect True 3 ''tower-ai-feed'', Disconnect 2]. \<not> registers (1::nat) op"
    by simp
  have h3: "user_channels two_on_floor_9 7 = None"
    by (simp add: two_on_floor_9_def run_def connect_eq manager_init_def set_add_def
        channels_of_def)
  have never: "disconnect two_on_floor_9 7 = Inr two_on_floor_9"
    using h3 disconnect_stops_delivery_and_is_idempotent [OF h1, of 7] by auto
  have h4: "\<not> registers (1::nat) (Connect True 3 ''tower-ai-feed'')
            \<and> \<not> registers (1::nat) (Disconnect 2)" by simp
  show ?thesis
    using h1 h2 h3 h4 never disconnect_stops_delivery_and_is_idempotent [OF h1, of 1]
    by blast
qed

text \<open>
  C10: on a manager whose channel keys are the six known names, a broadcast on any other
  channel name returns without an exception, returns the manager unchanged and makes no
  send.
\<close>

theorem broadcast_unknown_channel_noop:
  assumes "known_keys self" and "X \<notin> set channel_names"
  shows "broadcast raises self X m = Inr (self, [])"
  using assms by (simp add: broadcast_def known_keys_def)

theorem broadcast_unknown_channel_noop_witness:
  "known_keys two_on_floor_9 \<and> ''floor-pulse-3'' \<notin> set channel_names
   \<and> broadcast (\<lambda>c. c = 2) two_on_floor_9 ''floor-pulse-3'' ''hello'' = Inr (two_on_floor_9, [])"
proof -
  have "wellformed two_on_floor_9"
    unfolding two_on_floor_9_def by (rule wellformed_run[OF wellformed_init])
  then have h1: "known_keys two_on_floor_9" by (simp add: wellformed_def)
  have h2: "''floor-pulse-3'' \<notin> set channel_names" by (simp add: channel_names_def)
  show ?thesis
    using h1 h2 broadcast_unknown_channel_noop [OF h1 h2] by simp
qed

section \<open>Properties of the tower-feed handler\<close>

text \<open>
  C7, as the code has it by design: a subscribe message whose channel is a string that
  does not start with \<open>floor-pulse-\<close> (the known \<open>tower-ai-feed\<close> and the empty string among
  them), or is missing, or is another value that is not true, changes nothing, is not
  answered, and the handler goes on receiving.
\<close>

theorem subscribe_without_floor_prefix:
  "(\<not> startswith channel ''floor-pulse-'' \<longrightarrow>
      tower_feed_round send_ok manager websocket
          \<lparr>msg_type = Str ''subscribe'', msg_channel = Str channel\<rparr>
        = Inr (manager, [], True))
   \<and> tower_feed_round send_ok manager websocket
          \<lparr>msg_type = Str ''subscribe'', msg_channel = Missing\<rparr>
        = Inr (manager, [], True)
   \<and> tower_feed_round send_ok manager websocket
          \<lparr>msg_type = Str ''subscribe'', msg_channel = NonStr False\<rparr>
        = Inr (manager, [], True)"
  by (simp add: tower_feed_round_def tower_feed_message_def)

theorem subscribe_without_floor_prefix_witness:
  "\<not> startswith ''lobby'' ''floor-pulse-''
   \<and> tower_feed_round True two_on_floor_9 1
          \<lparr>msg_type = Str ''subscribe'', msg_channel = Str ''lobby''\<rparr>
        = Inr (two_on_floor_9, [], True)
   \<and> \<not> startswith ''tower-ai-feed'' ''floor-pulse-''
   \<and> tower_feed_round True two_on_floor_9 1
          \<lparr>msg_type = Str ''subscribe'', msg_channel = Str ''tower-ai-feed''\<rparr>
        = Inr (two_on_floor_9, [], True)"
proof -
  have h1: "\<not> startswith ''lobby'' ''floor-pulse-''" by simp
  have h2: "\<not> startswith ''tower-ai-feed'' ''floor-pulse-''" by simp
  show ?thesis
    using h1 h2
      subscribe_without_floor_prefix [where channel = "''lobby''" and send_ok = True
        and manager = two_on_floor_9 and websocket = 1]
      subscribe_without_floor_prefix [where channel = "''tower-ai-feed''" and send_ok = True
        and manager = two_on_floor_9 and websocket = 1]
    by simp
qed

text \<open>
  The claim C7 as it is written fails on a known channel: connection 1 asks for
  \<open>tower-ai-feed\<close>, one of the six names, and gets no answer.
\<close>

theorem subscribe_tower_feed_not_answered:
  "''tower-ai-feed'' \<in> set channel_names
   \<and> tower_feed_message True two_on_floor_9 1
        \<lparr>msg_type = Str ''subscribe'', msg_channel = Str ''tower-ai-feed''\<rparr>
      = Inr (two_on_floor_9, [])"
  by (simp add: channel_names_def tower_feed_message_def)

text \<open>
  A channel that starts with \<open>floor-pulse-\<close>, known or not: the handler calls \<open>connect\<close>,
  whose \<open>accept\<close> on the accepted socket raises. The exception is caught around the loop:
  no frame is sent, the handler stops, and the connection has left every channel it was
  in. A channel that is a true value but not a string ends the same way.
\<close>

lemma subscribe_with_floor_prefix_disconnects:
  assumes "wellformed manager" and "startswith channel ''floor-pulse-''"
  shows "\<exists>manager'. tower_feed_round send_ok manager websocket
            \<lparr>msg_type = Str ''subscribe'', msg_channel = Str channel\<rparr>
          = Inr (manager', [], False)
        \<and> user_channels manager' websocket = None
        \<and> (\<forall>X. websocket \<notin> set (members_of manager' X))"
proof -
  have c: "consistent manager" using assms(1) by (simp add: wellformed_def)
  obtain s1 where s1: "disconnect manager websocket = Inr s1"
    by (simp add: disconnect_eq)
  have ne: "channel \<noteq> []" using assms(2) by auto
  have "tower_feed_round send_ok manager websocket
            \<lparr>msg_type = Str ''subscribe'', msg_channel = Str channel\<rparr>
          = Inr (s1, [], False)"
    using s1 assms(2) ne
    by (simp add: tower_feed_round_def tower_feed_message_def connect_def accept_again_def)
  moreover have "user_channels s1 websocket = None"
    by (simp add: user_channels_disconnect[OF s1])
  moreover have "\<forall>X. websocket \<notin> set (members_of s1 X)"
    by (simp add: members_of_disconnect[OF c s1] set_discard_def)
  ultimately show ?thesis by blast
qed

lemma subscribe_with_non_string_channel_disconnects:
  assumes "wellformed manager"
  shows "\<exists>manager'. tower_feed_round send_ok manager websocket
            \<lparr>msg_type = Str ''subscribe'', msg_channel = NonStr True\<rparr>
          = Inr (manager', [], False)
        \<and> user_channels manager' websocket = None
        \<and> (\<forall>X. websocket \<notin> set (members_of manager' X))"
proof -
  have c: "consistent manager" using assms(1) by (simp add: wellformed_def)
  obtain s1 where s1: "disconnect manager websocket = Inr s1"
    by (simp add: disconnect_eq)
  have "tower_feed_round send_ok manager websocket
            \<lparr>msg_type = Str ''subscribe'', msg_channel = NonStr True\<rparr>
          = Inr (s1, [], False)"
    using s1 by (simp add: tower_feed_round_def tower_feed_message_def)
  moreover have "user_channels s1 websocket = None"
    by (simp add: user_channels_disconnect[OF s1])
  moreover have "\<forall>X. websocket \<notin> set (members_of s1 X)"
    by (simp add: members_of_disconnect[OF c s1] set_discard_def)
  ultimately show ?thesis by blast
qed

text \<open>
  So a subscribe message for the known channel \<open>floor-pulse-4\<close> adds no membership and is
  not answered: it ends the connection of the client.
\<close>

lemma subscribe_known_floor_channel_disconnects:
  "''floor-pulse-4'' \<in> set channel_names
   \<and> (\<exists>manager'. tower_feed_round True two_on_floor_9 1
            \<lparr>msg_type = Str ''subscribe'', msg_channel = Str ''floor-pulse-4''\<rparr>
          = Inr (manager', [], False)
        \<and> user_channels manager' 1 = None
        \<and> (\<forall>X. 1 \<notin> set (members_of manager' X)))"
proof -
  have w: "wellformed two_on_floor_9"
    unfolding two_on_floor_9_def by (rule wellformed_reachable)
  have p: "startswith ''floor-pulse-4'' ''floor-pulse-''" by simp
  show ?thesis
    using subscribe_with_floor_prefix_disconnects [OF w p, of True 1]
    by (simp add: channel_names_def)
qed

section \<open>Properties of the Redis listener\<close>

lemma listen_loop_stops:
  "(\<exists>e. fst (listen_loop raises manager (before @ TransportError # after) log) = Inl e)
   \<and> snd (listen_loop raises manager (before @ TransportError # after) log)
       = snd (listen_loop raises manager before log)"
proof (induction before arbitrary: manager log)
  case Nil
  show ?case by simp
next
  case (Cons ev before)
  show ?case
  proof (cases ev)
    case TransportError
    then show ?thesis by simp
  next
    case (Item ty channel data)
    then show ?thesis using Cons.IH
      by (auto split: sum.splits prod.splits)
  qed
qed

text \<open>
  C9, as the code has it: the listener subscribes once. When the subscription raises, the
  listener ends with the error and has broadcast nothing. When the bus raises a transport
  error, the listener ends with an error, and the manager and the sends are those of the
  items before the error: nothing that the bus has after the error is broadcast.
\<close>

theorem redis_listener_ends_on_error:
  "redis_listener False raises manager events = (Inl RedisConnectionError, manager, [])
   \<and> (\<exists>e. fst (redis_listener True raises manager (before @ TransportError # after)) = Inl e)
   \<and> snd (redis_listener True raises manager (before @ TransportError # after))
       = snd (redis_listener True raises manager before)"
  using listen_loop_stops [of raises manager before after "[]"]
  by (simp add: redis_listener_def)

text \<open>
  The claim C9 as it is written fails: with connections 1 and 2 on \<open>floor-pulse-9\<close>, a
  failed subscription, or a transport error before a message, ends the listener, and the
  message on \<open>floor-pulse-9\<close> reaches nobody. A listener that subscribed again would
  deliver it, as the third line shows for a bus without the error.
\<close>

theorem redis_listener_no_retry:
  "redis_listener False (\<lambda>c. False) two_on_floor_9 [Item ''message'' ''floor-pulse-9'' ''x'']
     = (Inl RedisConnectionError, two_on_floor_9, [])
   \<and> redis_listener True (\<lambda>c. False) two_on_floor_9
        [TransportError, Item ''message'' ''floor-pulse-9'' ''x'']
     = (Inl RedisConnectionError, two_on_floor_9, [])
   \<and> redis_listener True (\<lambda>c. False) two_on_floor_9 [Item ''message'' ''floor-pulse-9'' ''x'']
     = (Inr (), two_on_floor_9, [Delivered 1 ''x'', Delivered 2 ''x''])"
proof -
  have w: "wellformed two_on_floor_9"
    unfolding two_on_floor_9_def by (rule wellformed_run[OF wellformed_init])
  have m: "members_of two_on_floor_9 ''floor-pulse-9'' = [1, 2]"
    by (rule two_on_floor_9_members)
  have "active_connections two_on_floor_9 ''floor-pulse-9'' = Some [1, 2]"
    by (simp add: two_on_floor_9_def run_def connect_eq manager_init_def set_add_def
        channels_of_def)
  then have "broadcast (\<lambda>c. False) two_on_floor_9 ''floor-pulse-9'' ''x''
      = Inr (two_on_floor_9, [Delivered 1 ''x'', Delivered 2 ''x''])"
    by (simp add: broadcast_def dom_def subscript_def send_text_def)
  then show ?thesis
    by (simp add: redis_listener_def)
qed

section \<open>Properties of the cache helpers and the rate limiter\<close>

lemma rate_limit_loop_no_match:
  "first_match pats path = None \<Longrightarrow> rate_limit_loop pats now r path key = (Inr True, r)"
  by (induction pats) (auto split: if_splits)

lemma rate_limit_loop_match:
  "first_match pats path = Some (limit, window) \<Longrightarrow>
   rate_limit_loop pats now r path key =
     (case redis_incr now r key of
        (Inl e, r1) \<Rightarrow> (Inl e, r1)
      | (Inr count, r1) \<Rightarrow>
          if count = 1 then
            (case redis_expire now r1 key window of
               (Inl e, r2) \<Rightarrow> (Inl e, r2)
             | (Inr armed, r2) \<Rightarrow> (Inr (count \<le> limit), r2))
          else (Inr (count \<le> limit), r1))"
  by (induction pats) (auto split: if_splits)

text \<open>
  C3, as the code has it: when the Redis command raises, \<open>cache_get\<close> and \<open>cache_set\<close> raise
  the same error to their caller, and so does \<open>check_rate_limit\<close> for a path in which a
  configured pattern is found, be it the increment that raises or, after a first
  increment, the arming of the expiry. No key of the server changes in the first three
  cases; in the last the counter is left at 1 without an expiry. For a path in which no
  configured pattern is found \<open>check_rate_limit\<close> returns \<open>True\<close> and sends no command, so
  that the server, its schedule of outages included, is as before.
\<close>

theorem redis_errors_propagate:
  "(outages r = True # later \<longrightarrow>
      cache_get now r key = (Inl RedisConnectionError, r\<lparr>outages := later\<rparr>)
    \<and> cache_set now r key v ttl = (Inl RedisConnectionError, r\<lparr>outages := later\<rparr>)
    \<and> (first_match RATE_LIMITS path = Some (limit, window) \<longrightarrow>
         check_rate_limit now r path ident
           = (Inl RedisConnectionError, r\<lparr>outages := later\<rparr>)))
   \<and> (outages r = False # True # later \<and> first_match RATE_LIMITS path = Some (limit, window)
        \<and> live now r (rate_key path ident) = None \<longrightarrow>
         check_rate_limit now r path ident
           = (Inl RedisConnectionError,
              r\<lparr>outages := later,
                 entries := (entries r)(rate_key path ident \<mapsto> (Counter 1, None))\<rparr>))
   \<and> (first_match RATE_LIMITS path = None \<longrightarrow>
         check_rate_limit now r path ident = (Inr True, r))"
  by (auto simp: cache_get_def cache_set_def redis_get_def redis_setex_def check_rate_limit_def
      rate_limit_loop_match rate_limit_loop_no_match redis_incr_def redis_expire_def
      next_call_def live_def)

theorem redis_errors_propagate_witness:
  "outages redis_down = [True]
   \<and> cache_get 0 redis_down ''intel:live'' = (Inl RedisConnectionError, redis_empty)
   \<and> cache_set 0 redis_down ''intel:live'' ''{}'' 15 = (Inl RedisConnectionError, redis_empty)
   \<and> first_match RATE_LIMITS ''/api/analytics/live'' = Some (240, 60)
   \<and> check_rate_limit 0 redis_down ''/api/analytics/live'' ''userA''
        = (Inl RedisConnectionError, redis_empty)
   \<and> check_rate_limit 0 (redis_empty\<lparr>outages := [False, True]\<rparr>) ''/api/analytics/live'' ''userA''
        = (Inl RedisConnectionError,
           redis_empty\<lparr>entries := [rate_key ''/api/analytics/live'' ''userA'' \<mapsto> (Counter 1, None)]\<rparr>)
   \<and> first_match RATE_LIMITS ''/api/community/network'' = None
   \<and> check_rate_limit 0 redis_down ''/api/community/network'' ''userA'' = (Inr True, redis_down)"
proof -
  have h5: "first_match RATE_LIMITS ''/api/community/network'' = None"
    by (simp add: RATE_LIMITS_def replace_star_def)
  have h1: "outages redis_down = [True]" by (simp add: redis_down_def)
  have h2: "first_match RATE_LIMITS ''/api/analytics/live'' = Some (240, 60)"
    by (simp add: RATE_LIMITS_def replace_star_def)
  have h3: "outages (redis_empty\<lparr>outages := [False, True]\<rparr>) = [False, True]" by simp
  have h4: "live 0 (redis_empty\<lparr>outages := [False, True]\<rparr>)
              (rate_key ''/api/analytics/live'' ''userA'') = None"
    by (simp add: live_def redis_empty_def)
  have e: "redis_down\<lparr>outages := []\<rparr> = redis_empty"
    by (simp add: redis_down_def redis_empty_def)
  show ?thesis
    using h1 h2 h3 h4 h5
      redis_errors_propagate [where r = redis_down and now = 0
        and path = "''/api/community/network''" and ident = "''userA''"]
      redis_errors_propagate [where r = redis_down and later = "[]" and now = 0
        and key = "''intel:live''" and v = "''{}''" and ttl = 15
        and path = "''/api/analytics/live''" and limit = 240 and window = 60
        and ident = "''userA''"]
      redis_errors_propagate [where r = "redis_empty\<lparr>outages := [False, True]\<rparr>"
        and later = "[]" and now = 0
        and path = "''/api/analytics/live''" and limit = 240 and window = 60
        and ident = "''userA''"]
    by (simp add: e redis_empty_def)
qed

text \<open>
  The claim C3 as it is written fails with the server down: \<open>cache_get\<close> does not return a
  miss, \<open>cache_set\<close> does not return, and \<open>check_rate_limit\<close> does not return \<open>True\<close>; each
  raises the connection error.
\<close>

theorem redis_down_not_fail_open:
  "fst (cache_get 0 redis_down ''intel:live'') = Inl RedisConnectionError
   \<and> fst (cache_set 0 redis_down ''intel:live'' ''{}'' 15) = Inl RedisConnectionError
   \<and> fst (check_rate_limit 0 redis_down ''/api/analytics/live'' ''userA'')
        = Inl RedisConnectionError"
  by (simp add: cache_get_def cache_set_def redis_get_def redis_setex_def check_rate_limit_def
      RATE_LIMITS_def replace_star_def redis_incr_def next_call_def redis_down_def)

subsection \<open>The pulse pattern\<close>

lemma digits_chars: "digits n \<noteq> [] \<and> set (digits n) \<subseteq> set ''0123456789''"
proof (induction n rule: digits.induct)
  case (1 n)
  show ?case
  proof (cases "n < 10")
    case True
    then have "''0123456789'' ! n \<in> set ''0123456789''"
      by (intro nth_mem) simp
    then show ?thesis using True by (subst (1 2) digits.simps) simp
  next
    case False
    have "n mod 10 < 10" by simp
    then have "''0123456789'' ! (n mod 10) \<in> set ''0123456789''"
      by (intro nth_mem) simp
    then show ?thesis using False 1
      by (subst (1 2) digits.simps) simp
  qed
qed

lemma str_int_chars:
  "\<exists>x xs. str_int i = x # xs \<and> x \<in> set ''-0123456789'' \<and> set xs \<subseteq> set ''0123456789''"
proof (cases "i < 0")
  case True
  then show ?thesis using digits_chars[of "nat (- i)"]
    by (simp add: str_int_def)
next
  case False
  obtain x xs where d: "digits (nat i) = x # xs"
    using digits_chars[of "nat i"] by (cases "digits (nat i)") auto
  then show ?thesis using False digits_chars[of "nat i"]
    by (auto simp: str_int_def)
qed

lemma str_contains_skip:
  "CHR ''/'' \<notin> set xs \<Longrightarrow>
     str_contains (CHR ''/'' # sub) (xs @ rest) = str_contains (CHR ''/'' # sub) rest"
  by (induction xs) auto

lemma no_pattern_in_pulse_path: "first_match RATE_LIMITS (pulse_path floor_id) = None"
proof -
  obtain x xs where d: "str_int floor_id = x # xs" and x: "x \<in> set ''-0123456789''"
    and xs: "set xs \<subseteq> set ''0123456789''"
    using str_int_chars by blast
  have nx: "x \<noteq> CHR ''/''" "x \<noteq> CHR ''a''" using x by auto
  have nxs: "CHR ''/'' \<notin> set xs" using xs by auto
  show ?thesis
    unfolding pulse_path_def d
    by (simp add: RATE_LIMITS_def replace_star_def str_contains_skip[OF nxs] nx)
qed

lemma pulse_check_allows:
  "check_rate_limit now r (pulse_path floor_id) ident = (Inr True, r)"
  by (simp add: check_rate_limit_def rate_limit_loop_no_match no_pattern_in_pulse_path)

lemma pulse_calls_allowed:
  "check_rate_limit_calls nows r (pulse_path floor_id) ident
     = (replicate (length nows) (Inr True), r)"
  by (induction nows) (simp_all add: pulse_check_allows)

lemma pulse_path_16: "pulse_path 16 = ''/api/floors/16/pulse''"
  by code_simp

text \<open>
  C5 at the pulse route: the handler of \<open>/api/floors/16/pulse\<close> asks the limiter 181 times
  within one second for the same caller. The path contains none of the three patterns
  (the first one, with its star removed, is \<open>/api/floors//pulse\<close>), so no counter is
  touched and call 181 is allowed like the 180 before it.
\<close>

theorem pulse_call_181_allowed:
  "pulse_path 16 = ''/api/floors/16/pulse''
   \<and> first_match RATE_LIMITS ''/api/floors/16/pulse'' = None
   \<and> check_rate_limit_calls (replicate 181 0) redis_empty ''/api/floors/16/pulse'' ''userA''
        = (replicate 181 (Inr True), redis_empty)
   \<and> get_floor_pulse_check 0 redis_empty 16 (Some ''userA'') = (Inr True, redis_empty)"
  using pulse_calls_allowed [of "replicate 181 0" redis_empty 16 "''userA''"]
    no_pattern_in_pulse_path [of 16] pulse_check_allows [of 0 redis_empty 16 "''userA''"]
  by (simp add: pulse_path_16 get_floor_pulse_check_def)

text \<open>
  For comparison, a route whose pattern has no star: 15 calls for \<open>/api/bot/query\<close> are
  allowed, calls 16 and 17 in the same window are refused, and a call after the window is
  allowed again.
\<close>

lemma bot_query_limit_applies:
  "fst (check_rate_limit_calls (replicate 17 0 @ [60]) redis_empty ''/api/bot/query'' ''userA'')
     = replicate 15 (Inr True) @ [Inr False, Inr False, Inr True]"
  by code_simp

subsection \<open>The key of the counter\<close>

lemma rate_key_inject: "(rate_key path ident = rate_key path' ident) = (path = path')"
  by (simp add: rate_key_def)

lemma check_rate_limit_other_keys:
  "k \<noteq> rate_key path ident \<Longrightarrow>
     entries (snd (check_rate_limit now r path ident)) k = entries r k"
proof (cases "first_match RATE_LIMITS path")
  case None
  then show ?thesis by (simp add: check_rate_limit_def rate_limit_loop_no_match)
next
  case (Some lw)
  obtain limit window where lw: "lw = (limit, window)" by (cases lw)
  assume "k \<noteq> rate_key path ident"
  then show ?thesis using Some lw
    by (auto simp: check_rate_limit_def rate_limit_loop_match redis_incr_def redis_expire_def
        next_call_def live_def split: list.splits option.splits prod.splits redis_value.splits
        if_splits bool.splits)
qed

text \<open>
  C8, as the code has it: the counter of a request is the key made of the path given to
  \<open>check_rate_limit\<close> and of the identity. For one identity two paths have the same key
  exactly when they are the same path. A call whose path contains a configured pattern
  changes no other key, and with the server up it sets a counter that is not there to 1
  with the window as its expiry, and adds 1 to a counter that is there.
\<close>

theorem rate_counter_keyed_by_path:
  assumes "first_match RATE_LIMITS path = Some (limit, window)" and "outages r = []"
  shows "((rate_key path ident = rate_key path' ident) = (path = path'))
     \<and> (\<forall>k. k \<noteq> rate_key path ident \<longrightarrow>
           entries (snd (check_rate_limit now r path ident)) k = entries r k)
     \<and> (live now r (rate_key path ident) = None \<longrightarrow>
           check_rate_limit now r path ident =
             (Inr (1 \<le> limit),
              r\<lparr>entries := (entries r)(rate_key path ident \<mapsto> (Counter 1, Some (now + window)))\<rparr>))
     \<and> (live now r (rate_key path ident) = Some (Counter n, t) \<and> n \<noteq> 0 \<and> n \<noteq> 2 ^ 63 - 1 \<longrightarrow>
           check_rate_limit now r path ident =
             (Inr (n + 1 \<le> limit),
              r\<lparr>entries := (entries r)(rate_key path ident \<mapsto> (Counter (n + 1), t))\<rparr>))"
proof (intro conjI allI impI)
  show "(rate_key path ident = rate_key path' ident) = (path = path')"
    by (rule rate_key_inject)
next
  fix k assume "k \<noteq> rate_key path ident"
  then show "entries (snd (check_rate_limit now r path ident)) k = entries r k"
    by (rule check_rate_limit_other_keys)
next
  assume "live now r (rate_key path ident) = None"
  then show "check_rate_limit now r path ident =
             (Inr (1 \<le> limit),
              r\<lparr>entries := (entries r)(rate_key path ident \<mapsto> (Counter 1, Some (now + window)))\<rparr>)"
    using assms
    by (simp add: check_rate_limit_def rate_limit_loop_match redis_incr_def redis_expire_def
        next_call_def live_def)
next
  assume "live now r (rate_key path ident) = Some (Counter n, t) \<and> n \<noteq> 0 \<and> n \<noteq> 2 ^ 63 - 1"
  then show "check_rate_limit now r path ident =
             (Inr (n + 1 \<le> limit),
              r\<lparr>entries := (entries r)(rate_key path ident \<mapsto> (Counter (n + 1), t))\<rparr>)"
    using assms
    by (simp add: check_rate_limit_def rate_limit_loop_match redis_incr_def next_call_def)
qed

theorem rate_counter_keyed_by_path_witness:
  "first_match RATE_LIMITS ''/api/bot/query'' = Some (15, 60) \<and> outages redis_empty = []
   \<and> live 0 redis_empty (rate_key ''/api/bot/query'' ''u'') = None
   \<and> check_rate_limit 0 redis_empty ''/api/bot/query'' ''u'' = (Inr True, one_bot_query)
   \<and> outages one_bot_query = []
   \<and> live 5 one_bot_query (rate_key ''/api/bot/query'' ''u'') = Some (Counter 1, Some 60)
   \<and> check_rate_limit 5 one_bot_query ''/api/bot/query'' ''u''
       = (Inr True,
          one_bot_query\<lparr>entries := [rate_key ''/api/bot/query'' ''u'' \<mapsto> (Counter 2, Some 60)]\<rparr>)
   \<and> rate_key ''/api/bot/query'' ''v'' \<noteq> rate_key ''/api/bot/query'' ''u''
   \<and> entries (snd (check_rate_limit 5 one_bot_query ''/api/bot/query'' ''u''))
        (rate_key ''/api/bot/query'' ''v'') = None"
proof -
  have h1: "first_match RATE_LIMITS ''/api/bot/query'' = Some (15, 60)"
    by (simp add: RATE_LIMITS_def replace_star_def)
  have h2: "outages redis_empty = []" "outages one_bot_query = []"
    by (simp_all add: redis_empty_def one_bot_query_def)
  have h3: "live 0 redis_empty (rate_key ''/api/bot/query'' ''u'') = None"
    by (simp add: live_def redis_empty_def)
  have h4: "live 5 one_bot_query (rate_key ''/api/bot/query'' ''u'') = Some (Counter 1, Some 60)"
    by (simp add: live_def one_bot_query_def)
  have h5: "rate_key ''/api/bot/query'' ''v'' \<noteq> rate_key ''/api/bot/query'' ''u''"
    by (simp add: rate_key_def)
  show ?thesis
    using h1 h2 h3 h4 h5
      rate_counter_keyed_by_path [OF h1 h2(1), where ident = "''u''" and now = 0]
      rate_counter_keyed_by_path [OF h1 h2(2), where ident = "''u''" and now = 5 and n = 1
        and t = "Some 60"]
    by (simp add: one_bot_query_def redis_empty_def)
qed

text \<open>
  The claim C8 as it is written fails. Two pulse requests of one caller, for floors 2 and
  4, have different keys, and neither touches a counter. Two paths in which the same
  pattern \<open>/api/bot/query\<close> is found get a counter each, both at 1 after one call on each
  path.
\<close>

theorem rate_counter_not_shared:
  "rate_key (pulse_path 2) ''u'' \<noteq> rate_key (pulse_path 4) ''u''
   \<and> snd (get_floor_pulse_check 0 (snd (get_floor_pulse_check 0 redis_empty 2 (Some ''u''))) 4
            (Some ''u'')) = redis_empty
   \<and> first_match RATE_LIMITS ''/api/bot/query'' = Some (15, 60)
   \<and> first_match RATE_LIMITS ''/api/bot/query/'' = Some (15, 60)
   \<and> entries (snd (check_rate_limit 0 (snd (check_rate_limit 0 redis_empty ''/api/bot/query'' ''u''))
                    ''/api/bot/query/'' ''u''))
       = [rate_key ''/api/bot/query'' ''u'' \<mapsto> (Counter 1, Some 60),
          rate_key ''/api/bot/query/'' ''u'' \<mapsto> (Counter 1, Some 60)]"
proof -
  have p2: "pulse_path 2 = ''/api/floors/2/pulse''" by code_simp
  have p4: "pulse_path 4 = ''/api/floors/4/pulse''" by code_simp
  have a: "rate_key (pulse_path 2) ''u'' \<noteq> rate_key (pulse_path 4) ''u''"
    by (simp add: p2 p4 rate_key_def)
  have b: "snd (get_floor_pulse_check 0 (snd (get_floor_pulse_check 0 redis_empty 2 (Some ''u''))) 4
            (Some ''u'')) = redis_empty"
    by (simp add: get_floor_pulse_check_def pulse_check_allows)
  have c: "first_match RATE_LIMITS ''/api/bot/query'' = Some (15, 60)"
    "first_match RATE_LIMITS ''/api/bot/query/'' = Some (15, 60)"
    by (simp_all add: RATE_LIMITS_def replace_star_def)
  have d: "entries (snd (check_rate_limit 0 (snd (check_rate_limit 0 redis_empty ''/api/bot/query'' ''u''))
                    ''/api/bot/query/'' ''u''))
       = [rate_key ''/api/bot/query'' ''u'' \<mapsto> (Counter 1, Some 60),
          rate_key ''/api/bot/query/'' ''u'' \<mapsto> (Counter 1, Some 60)]"
    by (simp add: check_rate_limit_def rate_limit_loop_match c redis_incr_def redis_expire_def
        next_call_def live_def redis_empty_def rate_key_def)
  show ?thesis using a b c d by simp
qed

end
